theory Spec2Isabelle
  imports Complex_Main "HOL-Library.Sublist"
begin

section \<open>Record model (src/types.ts)\<close>

text \<open>
  The interface \<open>Paper\<close> has nine fields, all of type string. A JavaScript string is
  modelled as a HOL \<open>string\<close>, one \<open>char\<close> per code unit. A \<open>char\<close> has eight bits, so
  the model covers the strings whose code units lie below 256 (Basic Latin and the
  Latin-1 Supplement); on these the string operations below are those of the language
  standard.
\<close>

record Paper =
  Journal :: string
  Organization :: string
  PublishedDate :: string
  Authors :: string
  Title :: string
  TitleURL :: string
  PdfURL :: string
  VolURL :: string
  VolTitle :: string

section \<open>The string operations of the standard library used by src/App.tsx\<close>

text \<open>
  \<open>String.prototype.toLowerCase\<close> maps code unit by code unit below 256: the letters A
  to Z (codes 65 to 90) and the capital letters of the Latin-1 Supplement (codes 192 to
  222, without the multiplication sign 215) are moved up by 32 to their small letters,
  every other code unit is kept.
\<close>

definition lowerChar :: "char \<Rightarrow> char" where
  "lowerChar c =
     (let n = (of_char c :: nat)
      in if (65 \<le> n \<and> n \<le> 90) \<or> (192 \<le> n \<and> n \<le> 222 \<and> n \<noteq> 215)
         then char_of (n + 32) else c)"

definition toLowerCase :: "string \<Rightarrow> string" where
  "toLowerCase s = map lowerChar s"

text \<open>
  \<open>String.prototype.trim\<close> removes leading and trailing white space and line
  terminators. Below 256 these are TAB, LF, VT, FF, CR, SPACE and the no-break space
  (code 160).
\<close>

definition isWhiteSpace :: "char \<Rightarrow> bool" where
  "isWhiteSpace c = ((of_char c :: nat) \<in> {9, 10, 11, 12, 13, 32, 160})"

definition trim :: "string \<Rightarrow> string" where
  "trim s = rev (dropWhile isWhiteSpace (rev (dropWhile isWhiteSpace s)))"

text \<open>
  \<open>String.prototype.includes\<close>: does \<open>q\<close> occur in \<open>s\<close> as a contiguous run of code
  units, starting at some position of \<open>s\<close>? The empty string occurs in every string.
\<close>

fun includes_str :: "string \<Rightarrow> string \<Rightarrow> bool" where
  "includes_str [] q = (q = [])"
| "includes_str (c # cs) q = (prefix q (c # cs) \<or> includes_str cs q)"

section \<open>Query engine: \<open>filteredPapers\<close> (src/App.tsx, lines 50 to 60)\<close>

text \<open>
  The predicate of the arrow function passed to \<open>papers.filter\<close>, for an already
  normalised query.
\<close>

definition matchesQuery :: "string \<Rightarrow> Paper \<Rightarrow> bool" where
  "matchesQuery query paper =
     (includes_str (toLowerCase (Title paper)) query \<or>
      includes_str (toLowerCase (Authors paper)) query \<or>
      includes_str (toLowerCase (Journal paper)) query)"

definition filteredPapers :: "Paper list \<Rightarrow> string \<Rightarrow> Paper list" where
  "filteredPapers papers searchQuery =
     (let query = trim (toLowerCase searchQuery)
      in if query = [] then papers else filter (matchesQuery query) papers)"

section \<open>Letter case and white space as tables\<close>

text \<open>
  The spec describes the query engine as keeping the records with a field that
  "contains the query as a case-insensitive substring", the query being trimmed of
  surrounding white space. The definitions of this section state these notions on their
  own, by tables of characters and without \<open>toLowerCase\<close> and \<open>trim\<close>, so that the
  functions above can be compared with them.

  \<open>capitalLetters\<close> and \<open>smallLetters\<close> list the letters below 256 that have two
  cases, position by position; \<open>whiteSpaceChars\<close> lists the white space and line
  terminators below 256.
\<close>

definition capitalLetters :: string where
  "capitalLetters = ''ABCDEFGHIJKLMNOPQRSTUVWXYZ'' @
     [CHR 0xC0, CHR 0xC1, CHR 0xC2, CHR 0xC3, CHR 0xC4, CHR 0xC5, CHR 0xC6, CHR 0xC7,
      CHR 0xC8, CHR 0xC9, CHR 0xCA, CHR 0xCB, CHR 0xCC, CHR 0xCD, CHR 0xCE, CHR 0xCF,
      CHR 0xD0, CHR 0xD1, CHR 0xD2, CHR 0xD3, CHR 0xD4, CHR 0xD5, CHR 0xD6,
      CHR 0xD8, CHR 0xD9, CHR 0xDA, CHR 0xDB, CHR 0xDC, CHR 0xDD, CHR 0xDE]"

definition smallLetters :: string where
  "smallLetters = ''abcdefghijklmnopqrstuvwxyz'' @
     [CHR 0xE0, CHR 0xE1, CHR 0xE2, CHR 0xE3, CHR 0xE4, CHR 0xE5, CHR 0xE6, CHR 0xE7,
      CHR 0xE8, CHR 0xE9, CHR 0xEA, CHR 0xEB, CHR 0xEC, CHR 0xED, CHR 0xEE, CHR 0xEF,
      CHR 0xF0, CHR 0xF1, CHR 0xF2, CHR 0xF3, CHR 0xF4, CHR 0xF5, CHR 0xF6,
      CHR 0xF8, CHR 0xF9, CHR 0xFA, CHR 0xFB, CHR 0xFC, CHR 0xFD, CHR 0xFE]"

definition letterPairs :: "(char \<times> char) list" where
  "letterPairs = zip capitalLetters smallLetters"

definition whiteSpaceChars :: string where
  "whiteSpaceChars = [CHR 0x09, CHR 0x0A, CHR 0x0B, CHR 0x0C, CHR 0x0D, CHR 0x20, CHR 0xA0]"

text \<open>
  Two characters are the same letter when they are equal or are the capital and the
  small letter of one pair. A field contains a query ignoring case when some contiguous
  part of the field agrees with the query letter by letter.
\<close>

definition sameLetter :: "char \<Rightarrow> char \<Rightarrow> bool" where
  "sameLetter a b = (a = b \<or> (a, b) \<in> set letterPairs \<or> (b, a) \<in> set letterPairs)"

definition containsIgnoringCase :: "string \<Rightarrow> string \<Rightarrow> bool" where
  "containsIgnoringCase field query =
     (\<exists>part. sublist part field \<and> list_all2 sameLetter part query)"

text \<open>
  \<open>core\<close> is the query \<open>q\<close> without its surrounding white space: \<open>q\<close> is \<open>core\<close> between
  two runs of white space, and \<open>core\<close> neither starts nor ends with white space.
\<close>

definition isTrimOf :: "string \<Rightarrow> string \<Rightarrow> bool" where
  "isTrimOf core q =
     (\<exists>lead trail. q = lead @ core @ trail
        \<and> set lead \<subseteq> set whiteSpaceChars \<and> set trail \<subseteq> set whiteSpaceChars
        \<and> (core = [] \<or> (hd core \<notin> set whiteSpaceChars \<and> last core \<notin> set whiteSpaceChars)))"

section \<open>Pagination engine (src/App.tsx, lines 17 and 67 to 73)\<close>

definition ITEMS_PER_PAGE :: int where
  "ITEMS_PER_PAGE = 20"

text \<open>
  \<open>Array.prototype.slice(start, end)\<close> for integer arguments: a negative index counts
  from the end of the array, both indices are clamped to the array, and the result is
  empty when the clamped end does not lie behind the clamped start. It never throws.
\<close>

definition slice :: "'a list \<Rightarrow> int \<Rightarrow> int \<Rightarrow> 'a list" where
  "slice xs startIndex endIndex =
     (let len = int (length xs);
          k = (if startIndex < 0 then max (len + startIndex) 0 else min startIndex len);
          final = (if endIndex < 0 then max (len + endIndex) 0 else min endIndex len)
      in take (nat (final - k)) (drop (nat k) xs))"

text \<open>\<open>Math.ceil\<close>, on exact quotients.\<close>

definition Math_ceil :: "real \<Rightarrow> int" where
  "Math_ceil x = \<lceil>x\<rceil>"

text \<open>
  \<open>totalPages\<close> and \<open>paginatedPapers\<close> with the page size as a parameter; the
  component uses them at the constant \<open>ITEMS_PER_PAGE\<close>. The current page is a
  JavaScript number holding an integer.
\<close>

definition totalPagesFor :: "int \<Rightarrow> 'a list \<Rightarrow> int" where
  "totalPagesFor pageSize filtered = Math_ceil (real (length filtered) / real_of_int pageSize)"

definition paginatedPapersFor :: "int \<Rightarrow> 'a list \<Rightarrow> int \<Rightarrow> 'a list" where
  "paginatedPapersFor pageSize filtered currentPage =
     (let startIndex = (currentPage - 1) * pageSize;
          endIndex = startIndex + pageSize
      in slice filtered startIndex endIndex)"

definition totalPages :: "'a list \<Rightarrow> int" where
  "totalPages filtered = totalPagesFor ITEMS_PER_PAGE filtered"

definition paginatedPapers :: "'a list \<Rightarrow> int \<Rightarrow> 'a list" where
  "paginatedPapers filtered currentPage = paginatedPapersFor ITEMS_PER_PAGE filtered currentPage"

section \<open>Application state (src/App.tsx, lines 20 to 24)\<close>

text \<open>The five \<open>useState\<close> cells of the component \<open>App\<close>, with their initial values.\<close>

record AppState =
  papers :: "Paper list"
  searchQuery :: string
  isLoading :: bool
  error :: "string option"
  currentPage :: int

definition initialState :: AppState where
  "initialState =
     \<lparr>papers = [], searchQuery = [], isLoading = True, error = None, currentPage = 1\<rparr>"

section \<open>Ingestion: \<open>loadData\<close> (src/App.tsx, lines 15 and 27 to 45)\<close>

definition GOOGLE_SHEET_CSV_URL :: string where
  "GOOGLE_SHEET_CSV_URL =
     ''https://docs.google.com/spreadsheets/d/e/2PACX-1vSHAAiPFIlWiXooENqd4nDAqOzUfUNUlQoH-qQlCdnFTVmtnyeh1fbS-HNvnCtWb2Xp4YP0Ws8Xm_xS/pub?output=csv''"

text \<open>
  What a \<open>catch\<close> clause can receive: an instance of \<open>Error\<close> with its message, or any
  other thrown value.
\<close>

datatype thrown = Error string | NonError

text \<open>
  \<open>fetchAndParseSheetData\<close> is imported from the module \<open>services/googleSheetService\<close>,
  outside the two files modelled here. It is the only network access of the load, and
  its outcome depends on the network, so its outcome for a URL is a parameter \<open>fetch\<close> of the
  model: \<open>Inr\<close> the parsed records when the promise is fulfilled, \<open>Inl\<close> the thrown value
  when it is rejected (whatever the reason: transport or parsing).

  \<open>tryBlock\<close> is the body of the \<open>try\<close> after the two state updates: the guard on the URL
  (an empty string is falsy), then the call. It returns the outcome together with the
  list of URLs that were passed to \<open>fetchAndParseSheetData\<close>.
\<close>

definition tryBlock ::
  "(string \<Rightarrow> thrown + Paper list) \<Rightarrow> string \<Rightarrow> (thrown + Paper list) \<times> string list" where
  "tryBlock fetch url =
     (if url = [] \<or> includes_str url ''YOUR_URL_HERE''
      then (Inl (Error ''Please replace the placeholder Google Sheet URL in App.tsx.''), [])
      else (fetch url, [url]))"

text \<open>The \<open>catch\<close> clause: the message stored by \<open>setError\<close>.\<close>

fun catchMessage :: "thrown \<Rightarrow> string" where
  "catchMessage (Error message) = message"
| "catchMessage NonError = ''An unknown error occurred.''"

text \<open>
  \<open>loadData\<close> for a configured URL: \<open>setIsLoading(true)\<close>, \<open>setError(null)\<close>, the \<open>try\<close>
  body, \<open>setPapers\<close> on success or \<open>setError\<close> in the \<open>catch\<close> clause, and
  \<open>setIsLoading(false)\<close> in the \<open>finally\<close> clause. Each setter writes one cell only, so
  the load is modelled as one update of the state; the second component of the result is
  the list of network accesses made.
\<close>

definition loadDataFrom ::
  "(string \<Rightarrow> thrown + Paper list) \<Rightarrow> string \<Rightarrow> AppState \<Rightarrow> AppState \<times> string list" where
  "loadDataFrom fetch url s =
     (let s1 = s\<lparr>isLoading := True, error := None\<rparr>;
          (outcome, calls) = tryBlock fetch url;
          s2 = (case outcome of
                  Inr data \<Rightarrow> s1\<lparr>papers := data\<rparr>
                | Inl e \<Rightarrow> s1\<lparr>error := Some (catchMessage e)\<rparr>)
      in (s2\<lparr>isLoading := False\<rparr>, calls))"

definition loadData :: "(string \<Rightarrow> thrown + Paper list) \<Rightarrow> AppState \<Rightarrow> AppState \<times> string list" where
  "loadData fetch s = loadDataFrom fetch GOOGLE_SHEET_CSV_URL s"

section \<open>Rendering and events (src/App.tsx, lines 50 to 73, 96 and 125)\<close>

text \<open>The three values a render pass of \<open>App\<close> derives from the state.\<close>

record View =
  viewFilteredPapers :: "Paper list"
  viewTotalPages :: int
  viewPaginatedPapers :: "Paper list"

definition render :: "AppState \<Rightarrow> View" where
  "render s =
     (let filtered = filteredPapers (papers s) (searchQuery s)
      in \<lparr>viewFilteredPapers = filtered,
          viewTotalPages = totalPages filtered,
          viewPaginatedPapers = paginatedPapers filtered (currentPage s)\<rparr>)"

definition setSearchQuery :: "string \<Rightarrow> AppState \<Rightarrow> AppState" where
  "setSearchQuery v s = s\<lparr>searchQuery := v\<rparr>"

definition setCurrentPage :: "int \<Rightarrow> AppState \<Rightarrow> AppState" where
  "setCurrentPage n s = s\<lparr>currentPage := n\<rparr>"

text \<open>
  The two user events: \<open>onChange\<close> of the search input calls \<open>setSearchQuery\<close> with the
  text of the input, \<open>onPageChange\<close> of the pagination control calls \<open>setCurrentPage\<close>.
\<close>

datatype Event = OnChange string | OnPageChange int

fun handler :: "Event \<Rightarrow> AppState \<Rightarrow> AppState" where
  "handler (OnChange v) s = setSearchQuery v s"
| "handler (OnPageChange n) s = setCurrentPage n s"

text \<open>
  The effect of lines 63 to 65, with dependency list \<open>[searchQuery]\<close>: React runs it
  after a render pass has been committed, when \<open>searchQuery\<close> differs from its value
  at the pass before (\<open>renderedQuery\<close>).
\<close>

definition resetPageEffect :: "string \<Rightarrow> AppState \<Rightarrow> AppState" where
  "resetPageEffect renderedQuery s =
     (if searchQuery s = renderedQuery then s else setCurrentPage 1 s)"

text \<open>
  One event, from a state \<open>s\<close> that has been rendered: the handler updates the state,
  React renders the updated state, then runs the effect; if the effect changed the
  state, React renders once more. \<open>renderPasses\<close> lists the states of these render
  passes in order, \<open>dispatch\<close> is the state the event ends in.
\<close>

definition dispatch :: "Event \<Rightarrow> AppState \<Rightarrow> AppState" where
  "dispatch ev s = resetPageEffect (searchQuery s) (handler ev s)"

definition renderPasses :: "Event \<Rightarrow> AppState \<Rightarrow> AppState list" where
  "renderPasses ev s =
     (let s1 = handler ev s;
          s2 = resetPageEffect (searchQuery s) s1
      in if s2 = s1 then [s1] else [s1, s2])"

section \<open>Sample data\<close>

definition paperA :: Paper where
  "paperA = \<lparr>Journal = ''Lancet'', Organization = [], PublishedDate = [],
     Authors = ''Ann'', Title = ''Alpha'', TitleURL = [], PdfURL = [], VolURL = [],
     VolTitle = []\<rparr>"

definition paperB :: Paper where
  "paperB = \<lparr>Journal = ''Nature'', Organization = [], PublishedDate = [],
     Authors = ''Bob'', Title = ''Beta'', TitleURL = [], PdfURL = [], VolURL = [],
     VolTitle = []\<rparr>"

text \<open>
  A record whose title is in capital letters, one of them (code 0xCA) outside ASCII,
  and a query for it typed in another case between a no-break space, a tabulator and a
  space.
\<close>

definition paperC :: Paper where
  "paperC = \<lparr>Journal = ''Y Hoc'', Organization = [], PublishedDate = [],
     Authors = ''Tran'', Title = ''NGHI'' @ [CHR 0xCA] @ ''N Y KHOA'', TitleURL = [],
     PdfURL = [], VolURL = [], VolTitle = []\<rparr>"

definition sampleQuery :: string where
  "sampleQuery = [CHR 0xA0, CHR 0x09] @ ''Nghi'' @ [CHR 0xEA] @ ''n ''"

text \<open>
  A rendered state with twenty-one records, of which only the last has a field
  containing the letter b, showing page 2 of the unfiltered list.
\<close>

definition stateOnPageTwo :: AppState where
  "stateOnPageTwo =
     \<lparr>papers = replicate 20 paperA @ [paperB], searchQuery = [], isLoading = False,
      error = None, currentPage = 2\<rparr>"

section \<open>Properties of the string operations\<close>

text \<open>
  \<open>lowerChar\<close> is the lookup in the table of letter pairs, and \<open>isWhiteSpace\<close> is
  membership in the table of white space; both are checked on all 256 characters.
\<close>

lemma lowerChar_table_all:
  "\<forall>c. lowerChar c = (case map_of letterPairs c of Some l \<Rightarrow> l | None \<Rightarrow> c)"
  by code_simp

lemma isWhiteSpace_table_all: "\<forall>c. isWhiteSpace c = (c \<in> set whiteSpaceChars)"
  by code_simp

lemma lowerChar_table:
  "lowerChar c = (case map_of letterPairs c of Some l \<Rightarrow> l | None \<Rightarrow> c)"
  using lowerChar_table_all by blast

lemma isWhiteSpace_table: "isWhiteSpace c \<longleftrightarrow> c \<in> set whiteSpaceChars"
  using isWhiteSpace_table_all by blast

lemma letterPairs_facts:
  "distinct (map fst letterPairs)" "distinct (map snd letterPairs)"
  "set (map fst letterPairs) \<inter> set (map snd letterPairs) = {}"
  by code_simp+

lemma letters_not_whiteSpace:
  "set (map fst letterPairs) \<inter> set whiteSpaceChars = {}"
  "set (map snd letterPairs) \<inter> set whiteSpaceChars = {}"
  by code_simp+

lemma isWhiteSpace_lowerChar: "isWhiteSpace (lowerChar c) = isWhiteSpace c"
proof (cases "map_of letterPairs c")
  case None
  then show ?thesis
    by (simp add: lowerChar_table)
next
  case (Some l)
  then have p: "(c, l) \<in> set letterPairs"
    by (rule map_of_SomeD)
  then have "c \<in> set (map fst letterPairs)" and "l \<in> set (map snd letterPairs)"
    by force+
  then have "c \<notin> set whiteSpaceChars" and "l \<notin> set whiteSpaceChars"
    using letters_not_whiteSpace by blast+
  then show ?thesis
    using Some by (simp add: lowerChar_table isWhiteSpace_table)
qed

lemma lowerChar_pair: "(a, b) \<in> set letterPairs \<Longrightarrow> lowerChar a = b \<and> lowerChar b = b"
proof -
  assume p: "(a, b) \<in> set letterPairs"
  then have "map_of letterPairs a = Some b"
    using letterPairs_facts(1) by simp
  moreover have "b \<in> set (map snd letterPairs)"
    using p by force
  then have "b \<notin> set (map fst letterPairs)"
    using letterPairs_facts(3) by blast
  then have "map_of letterPairs b = None"
    by (simp add: map_of_eq_None_iff)
  ultimately show ?thesis
    by (simp add: lowerChar_table)
qed

lemma lowerChar_eq_iff: "lowerChar a = lowerChar b \<longleftrightarrow> sameLetter a b"
proof
  assume eq: "lowerChar a = lowerChar b"
  have inj: "inj_on snd (set letterPairs)"
    using letterPairs_facts(2) by (simp add: distinct_map)
  show "sameLetter a b"
  proof (cases "map_of letterPairs a")
    case None
    note na = None
    show ?thesis
    proof (cases "map_of letterPairs b")
      case None
      with na eq show ?thesis by (simp add: lowerChar_table sameLetter_def)
    next
      case (Some y)
      then have "(b, y) \<in> set letterPairs" by (rule map_of_SomeD)
      moreover have "a = y" using na Some eq by (simp add: lowerChar_table)
      ultimately show ?thesis by (simp add: sameLetter_def)
    qed
  next
    case (Some x)
    then have ax: "(a, x) \<in> set letterPairs" by (rule map_of_SomeD)
    show ?thesis
    proof (cases "map_of letterPairs b")
      case None
      then have "x = b" using Some eq by (simp add: lowerChar_table)
      with ax show ?thesis by (simp add: sameLetter_def)
    next
      case (Some y)
      then have "(b, y) \<in> set letterPairs" by (rule map_of_SomeD)
      moreover have "x = y" using \<open>map_of letterPairs a = Some x\<close> Some eq by (simp add: lowerChar_table)
      ultimately have "(b, x) \<in> set letterPairs"
        by simp
      then have "(a, x) = (b, x)"
        using ax inj_onD [OF inj, of "(a, x)" "(b, x)"] by simp
      then show ?thesis by (simp add: sameLetter_def)
    qed
  qed
next
  assume "sameLetter a b"
  then consider "a = b" | "(a, b) \<in> set letterPairs" | "(b, a) \<in> set letterPairs"
    unfolding sameLetter_def by blast
  then show "lowerChar a = lowerChar b"
  proof cases
    case 1
    then show ?thesis by simp
  next
    case 2
    then show ?thesis using lowerChar_pair [of a b] by simp
  next
    case 3
    then show ?thesis using lowerChar_pair [of b a] by simp
  qed
qed

lemma toLowerCase_eq_iff: "toLowerCase xs = toLowerCase ys \<longleftrightarrow> list_all2 sameLetter xs ys"
proof -
  have "toLowerCase xs = toLowerCase ys \<longleftrightarrow> list_all2 (=) (map lowerChar xs) (map lowerChar ys)"
    by (simp add: toLowerCase_def list.rel_eq)
  also have "\<dots> \<longleftrightarrow> list_all2 (\<lambda>a b. lowerChar a = lowerChar b) xs ys"
    by (simp add: list_all2_map1 list_all2_map2)
  also have "(\<lambda>a b. lowerChar a = lowerChar b) = sameLetter"
    by (intro ext) (rule lowerChar_eq_iff)
  finally show ?thesis .
qed

lemma sublist_map_iff:
  "sublist (map f q) (map f field) \<longleftrightarrow> (\<exists>part. sublist part field \<and> map f part = map f q)"
proof
  assume "sublist (map f q) (map f field)"
  then obtain ps ss where eq: "map f field = ps @ map f q @ ss"
    by (auto simp: sublist_def)
  define part where "part = take (length q) (drop (length ps) field)"
  have "map f part = take (length q) (drop (length ps) (map f field))"
    by (simp add: part_def take_map drop_map)
  also have "\<dots> = map f q"
    by (simp add: eq)
  finally have m: "map f part = map f q" .
  have "field = take (length ps) field @ part @ drop (length q) (drop (length ps) field)"
    unfolding part_def by (simp only: append_take_drop_id)
  then have "sublist part field"
    unfolding sublist_def by blast
  with m show "\<exists>part. sublist part field \<and> map f part = map f q"
    by blast
next
  assume "\<exists>part. sublist part field \<and> map f part = map f q"
  then obtain part ps ss where "field = ps @ part @ ss" and "map f part = map f q"
    by (auto simp: sublist_def)
  then have "map f field = map f ps @ map f q @ map f ss"
    by simp
  then show "sublist (map f q) (map f field)"
    unfolding sublist_def by blast
qed

lemma trim_toLowerCase: "trim (toLowerCase q) = toLowerCase (trim q)"
proof -
  have c: "isWhiteSpace \<circ> lowerChar = isWhiteSpace"
    by (rule ext) (simp add: isWhiteSpace_lowerChar)
  show ?thesis
    by (simp add: trim_def toLowerCase_def dropWhile_map rev_map c)
qed

lemma trim_isTrimOf: "isTrimOf (trim q) q"
proof -
  define r where "r = dropWhile isWhiteSpace q"
  define lead where "lead = takeWhile isWhiteSpace q"
  define trail where "trail = rev (takeWhile isWhiteSpace (rev r))"
  have t: "trim q = rev (dropWhile isWhiteSpace (rev r))"
    by (simp add: trim_def r_def)
  have "r = rev (takeWhile isWhiteSpace (rev r) @ dropWhile isWhiteSpace (rev r))"
    by (simp only: takeWhile_dropWhile_id rev_rev_ident)
  also have "\<dots> = trim q @ trail"
    by (simp only: rev_append t trail_def)
  finally have r: "r = trim q @ trail" .
  have "q = lead @ r"
    by (simp add: lead_def r_def)
  moreover have "lead @ r = lead @ trim q @ trail"
    using r by (rule arg_cong)
  ultimately have q: "q = lead @ trim q @ trail"
    by (rule trans)
  have l: "set lead \<subseteq> set whiteSpaceChars"
    by (auto simp: lead_def isWhiteSpace_table [symmetric] dest: set_takeWhileD)
  have tr: "set trail \<subseteq> set whiteSpaceChars"
    by (auto simp: trail_def isWhiteSpace_table [symmetric] dest: set_takeWhileD)
  have ends: "hd (trim q) \<notin> set whiteSpaceChars \<and> last (trim q) \<notin> set whiteSpaceChars"
    if ne: "trim q \<noteq> []"
  proof -
    have "r \<noteq> []"
      using ne r by auto
    then have "\<not> isWhiteSpace (hd r)"
      unfolding r_def by (rule hd_dropWhile)
    moreover have "hd r = hd (trim q)"
      using ne r by (metis hd_append2)
    moreover have "dropWhile isWhiteSpace (rev r) \<noteq> []"
      using ne t by simp
    then have "\<not> isWhiteSpace (hd (dropWhile isWhiteSpace (rev r)))"
      by (rule hd_dropWhile)
    moreover have "last (trim q) = hd (dropWhile isWhiteSpace (rev r))"
      using ne t by (simp add: last_rev)
    ultimately show ?thesis
      by (simp add: isWhiteSpace_table)
  qed
  show ?thesis
    unfolding isTrimOf_def using q l tr ends by blast
qed

lemma blank_query_iff: "trim (toLowerCase q) = [] \<longleftrightarrow> set q \<subseteq> set whiteSpaceChars"
proof -
  have "trim q = [] \<longleftrightarrow> (\<forall>c\<in>set q. isWhiteSpace c)"
  proof
    assume e: "trim q = []"
    have "dropWhile isWhiteSpace q = []"
    proof (rule ccontr)
      assume n: "dropWhile isWhiteSpace q \<noteq> []"
      from e have "\<forall>c\<in>set (dropWhile isWhiteSpace q). isWhiteSpace c"
        by (simp add: trim_def)
      moreover have "\<not> isWhiteSpace (hd (dropWhile isWhiteSpace q))"
        using n by (rule hd_dropWhile)
      moreover have "hd (dropWhile isWhiteSpace q) \<in> set (dropWhile isWhiteSpace q)"
        using n by (rule hd_in_set)
      ultimately show False
        by blast
    qed
    then show "\<forall>c\<in>set q. isWhiteSpace c"
      by simp
  next
    assume "\<forall>c\<in>set q. isWhiteSpace c"
    then have d: "dropWhile isWhiteSpace q = []"
      by simp
    show "trim q = []"
      unfolding trim_def d by simp
  qed
  moreover have "trim (toLowerCase q) = [] \<longleftrightarrow> trim q = []"
    by (simp add: trim_toLowerCase) (simp add: toLowerCase_def)
  ultimately show ?thesis
    by (auto simp: isWhiteSpace_table)
qed

section \<open>Properties of the query engine\<close>

text \<open>
  \<open>includes_str\<close> decides the contiguous-sublist relation of the list library:
  \<open>sublist q s\<close> holds when \<open>s = ps @ q @ ss\<close> for some \<open>ps\<close> and \<open>ss\<close>.
\<close>

lemma includes_str_sublist: "includes_str s q \<longleftrightarrow> sublist q s"
  by (induction s) (auto simp: sublist_Cons_right)

lemma matchesQuery_sublist:
  "matchesQuery query =
     (\<lambda>paper. sublist query (toLowerCase (Title paper)) \<or>
        sublist query (toLowerCase (Authors paper)) \<or>
        sublist query (toLowerCase (Journal paper)))"
  by (rule ext) (simp add: matchesQuery_def includes_str_sublist)

lemma filteredPapers_nonblank:
  "trim (toLowerCase q) \<noteq> [] \<Longrightarrow>
   filteredPapers records q = filter (matchesQuery (trim (toLowerCase q))) records"
  by (simp add: filteredPapers_def)

text \<open>
  Matching on the lowercased field and the lowercased, trimmed query is containment of
  the trimmed query ignoring case.
\<close>

lemma lowercased_match_iff:
  "sublist (trim (toLowerCase q)) (toLowerCase field) \<longleftrightarrow> containsIgnoringCase field (trim q)"
proof -
  have "sublist (trim (toLowerCase q)) (toLowerCase field)
        \<longleftrightarrow> sublist (map lowerChar (trim q)) (map lowerChar field)"
    by (simp add: trim_toLowerCase) (simp add: toLowerCase_def)
  also have "\<dots> \<longleftrightarrow> (\<exists>part. sublist part field \<and> toLowerCase part = toLowerCase (trim q))"
    by (simp add: sublist_map_iff toLowerCase_def)
  finally show ?thesis
    by (simp add: containsIgnoringCase_def toLowerCase_eq_iff)
qed

lemma matchesQuery_ignoring_case:
  "matchesQuery (trim (toLowerCase q)) =
     (\<lambda>paper. containsIgnoringCase (Title paper) (trim q) \<or>
        containsIgnoringCase (Authors paper) (trim q) \<or>
        containsIgnoringCase (Journal paper) (trim q))"
  by (rule ext) (simp add: matchesQuery_sublist lowercased_match_iff)

lemma filteredPapers_member:
  assumes "paper \<in> set (filteredPapers records q)"
  shows "paper \<in> set records" and "matchesQuery (trim (toLowerCase q)) paper"
proof -
  show "paper \<in> set records"
    using assms by (cases "trim (toLowerCase q) = []") (simp_all add: filteredPapers_def)
  show "matchesQuery (trim (toLowerCase q)) paper"
  proof (cases "trim (toLowerCase q) = []")
    case True
    then show ?thesis
      by (simp add: matchesQuery_sublist)
  next
    case False
    then show ?thesis
      using assms by (simp add: filteredPapers_def)
  qed
qed

text \<open>
  C1. For a query that is not empty once lowercased and trimmed, that is a query not
  made of white space only, \<open>filteredPapers\<close> is the filter of the input by the
  predicate "the lowercased Title, Authors or Journal contains the normalised query as a
  substring": a record is kept exactly when one of the three fields matches, and the
  kept records are a subsequence of the input, in the input's order. The normalisation
  is what the words say: the trimmed query is the query without its surrounding white
  space, and a lowercased field contains the normalised query exactly when the field
  contains the trimmed query ignoring letter case.
\<close>

theorem filteredPapers_keeps_matches:
  assumes "trim (toLowerCase q) \<noteq> []"
  shows "filteredPapers records q =
           filter (\<lambda>paper.
                sublist (trim (toLowerCase q)) (toLowerCase (Title paper)) \<or>
                sublist (trim (toLowerCase q)) (toLowerCase (Authors paper)) \<or>
                sublist (trim (toLowerCase q)) (toLowerCase (Journal paper))) records
         \<and> subseq (filteredPapers records q) records
         \<and> \<not> set q \<subseteq> set whiteSpaceChars
         \<and> isTrimOf (trim q) q
         \<and> filteredPapers records q =
           filter (\<lambda>paper.
                containsIgnoringCase (Title paper) (trim q) \<or>
                containsIgnoringCase (Authors paper) (trim q) \<or>
                containsIgnoringCase (Journal paper) (trim q)) records"
proof -
  have f: "filteredPapers records q = filter (matchesQuery (trim (toLowerCase q))) records"
    using assms by (rule filteredPapers_nonblank)
  have "filteredPapers records q =
          filter (\<lambda>paper.
               sublist (trim (toLowerCase q)) (toLowerCase (Title paper)) \<or>
               sublist (trim (toLowerCase q)) (toLowerCase (Authors paper)) \<or>
               sublist (trim (toLowerCase q)) (toLowerCase (Journal paper))) records"
    unfolding f by (simp only: matchesQuery_sublist)
  moreover have "subseq (filteredPapers records q) records"
    unfolding f by simp
  moreover have "\<not> set q \<subseteq> set whiteSpaceChars"
    using assms by (simp add: blank_query_iff)
  moreover have "isTrimOf (trim q) q"
    by (rule trim_isTrimOf)
  moreover have "filteredPapers records q =
          filter (\<lambda>paper.
               containsIgnoringCase (Title paper) (trim q) \<or>
               containsIgnoringCase (Authors paper) (trim q) \<or>
               containsIgnoringCase (Journal paper) (trim q)) records"
    unfolding f by (simp only: matchesQuery_ignoring_case)
  ultimately show ?thesis
    by blast
qed

theorem filteredPapers_keeps_matches_witness:
  "trim (toLowerCase sampleQuery) \<noteq> []
   \<and> filteredPapers [paperA, paperC, paperB] sampleQuery = [paperC]
   \<and> subseq [paperC] [paperA, paperC, paperB]
   \<and> isTrimOf (''Nghi'' @ [CHR 0xEA] @ ''n'') sampleQuery
   \<and> [paperC] =
       filter (\<lambda>paper.
            containsIgnoringCase (Title paper) (''Nghi'' @ [CHR 0xEA] @ ''n'') \<or>
            containsIgnoringCase (Authors paper) (''Nghi'' @ [CHR 0xEA] @ ''n'') \<or>
            containsIgnoringCase (Journal paper) (''Nghi'' @ [CHR 0xEA] @ ''n''))
         [paperA, paperC, paperB]"
proof -
  have h: "trim (toLowerCase sampleQuery) \<noteq> []"
    by code_simp
  have r: "filteredPapers [paperA, paperC, paperB] sampleQuery = [paperC]"
    by code_simp
  have t: "trim sampleQuery = ''Nghi'' @ [CHR 0xEA] @ ''n''"
    by code_simp
  note th = filteredPapers_keeps_matches [OF h, of "[paperA, paperC, paperB]", unfolded r t]
  show ?thesis
    using h r th by blast
qed

text \<open>
  C4. A query made of white space only, the empty query and the query of three spaces
  among them, is normalised to the empty string, and \<open>filteredPapers\<close> then returns its
  input list as it is. The queries normalised to the empty string are exactly those made
  of characters of the white space table.
\<close>

theorem filteredPapers_blank_query:
  "filteredPapers records [] = records
   \<and> filteredPapers records ''   '' = records
   \<and> (set q \<subseteq> set whiteSpaceChars \<longrightarrow> filteredPapers records q = records)
   \<and> (trim (toLowerCase q) = []) = (set q \<subseteq> set whiteSpaceChars)"
proof -
  have b: "filteredPapers records w = records" if "set w \<subseteq> set whiteSpaceChars" for w
    using that by (simp add: filteredPapers_def blank_query_iff)
  have "set [] \<subseteq> set whiteSpaceChars"
    by simp
  then have e: "filteredPapers records [] = records"
    by (rule b)
  have "set ''   '' \<subseteq> set whiteSpaceChars"
    by (simp add: whiteSpaceChars_def)
  then have "filteredPapers records ''   '' = records"
    by (rule b)
  with e show ?thesis
    using b [of q] by (simp add: blank_query_iff)
qed

theorem filteredPapers_blank_query_witness:
  "set [CHR 0xA0, CHR 0x09, CHR 0x20, CHR 0x0A, CHR 0x0B, CHR 0x0C, CHR 0x0D]
     \<subseteq> set whiteSpaceChars
   \<and> filteredPapers [paperA, paperC, paperB]
       [CHR 0xA0, CHR 0x09, CHR 0x20, CHR 0x0A, CHR 0x0B, CHR 0x0C, CHR 0x0D]
     = [paperA, paperC, paperB]"
proof -
  have h: "set [CHR 0xA0, CHR 0x09, CHR 0x20, CHR 0x0A, CHR 0x0B, CHR 0x0C, CHR 0x0D]
             \<subseteq> set whiteSpaceChars"
    by (simp add: whiteSpaceChars_def)
  have r: "filteredPapers [paperA, paperC, paperB]
             [CHR 0xA0, CHR 0x09, CHR 0x20, CHR 0x0A, CHR 0x0B, CHR 0x0C, CHR 0x0D]
           = [paperA, paperC, paperB]"
    by code_simp
  show ?thesis
    using h r filteredPapers_blank_query
      [of "[paperA, paperC, paperB]"
          "[CHR 0xA0, CHR 0x09, CHR 0x20, CHR 0x0A, CHR 0x0B, CHR 0x0C, CHR 0x0D]"]
    by blast
qed

text \<open>
  C6. The claim reads the query lowercased but not trimmed. The code trims it: for the
  query \<open>'' a ''\<close> (a space, the letter a, a space) the record \<open>paperB\<close> is kept,
  since its title contains the letter a, while none of its three lowercased fields
  contains the lowercased query with its two spaces.
\<close>

theorem filteredPapers_untrimmed_query_counterexample:
  "'' a '' \<noteq> [] \<and> paperB \<in> set (filteredPapers [paperB] '' a '') \<and>
   \<not> sublist (toLowerCase '' a '') (toLowerCase (Title paperB)) \<and>
   \<not> sublist (toLowerCase '' a '') (toLowerCase (Authors paperB)) \<and>
   \<not> sublist (toLowerCase '' a '') (toLowerCase (Journal paperB))"
proof -
  have "filteredPapers [paperB] '' a '' = [paperB]"
    by code_simp
  moreover have "\<not> includes_str (toLowerCase (Title paperB)) (toLowerCase '' a '')"
    "\<not> includes_str (toLowerCase (Authors paperB)) (toLowerCase '' a '')"
    "\<not> includes_str (toLowerCase (Journal paperB)) (toLowerCase '' a '')"
    by code_simp+
  ultimately show ?thesis
    by (simp add: includes_str_sublist)
qed

text \<open>
  C6, amended. For every non-empty query, every record of \<open>filteredPapers records q\<close>
  is a record of the input and has a lowercased Title, Authors or Journal that contains
  the lowercased and trimmed query as a substring. The trimmed query is the query
  without its surrounding white space, and a lowercased field contains the lowercased
  trimmed query exactly when the field contains the trimmed query ignoring letter case.
\<close>

theorem filteredPapers_matches_trimmed_query:
  assumes "q \<noteq> []" and "paper \<in> set (filteredPapers records q)"
  shows "paper \<in> set records
       \<and> (sublist (trim (toLowerCase q)) (toLowerCase (Title paper)) \<or>
          sublist (trim (toLowerCase q)) (toLowerCase (Authors paper)) \<or>
          sublist (trim (toLowerCase q)) (toLowerCase (Journal paper)))
       \<and> isTrimOf (trim q) q
       \<and> (\<forall>field. sublist (trim (toLowerCase q)) (toLowerCase field)
                   = containsIgnoringCase field (trim q))
       \<and> (containsIgnoringCase (Title paper) (trim q) \<or>
          containsIgnoringCase (Authors paper) (trim q) \<or>
          containsIgnoringCase (Journal paper) (trim q))"
proof -
  have m: "matchesQuery (trim (toLowerCase q)) paper"
    using assms(2) by (rule filteredPapers_member)
  have "paper \<in> set records"
    using assms(2) by (rule filteredPapers_member)
  moreover have "sublist (trim (toLowerCase q)) (toLowerCase (Title paper)) \<or>
      sublist (trim (toLowerCase q)) (toLowerCase (Authors paper)) \<or>
      sublist (trim (toLowerCase q)) (toLowerCase (Journal paper))"
    using m by (simp only: matchesQuery_sublist)
  moreover have "isTrimOf (trim q) q"
    by (rule trim_isTrimOf)
  moreover have "\<forall>field. sublist (trim (toLowerCase q)) (toLowerCase field)
                   = containsIgnoringCase field (trim q)"
    by (simp only: lowercased_match_iff) simp
  moreover have "containsIgnoringCase (Title paper) (trim q) \<or>
      containsIgnoringCase (Authors paper) (trim q) \<or>
      containsIgnoringCase (Journal paper) (trim q)"
    using m by (simp only: matchesQuery_ignoring_case)
  ultimately show ?thesis
    by blast
qed

theorem filteredPapers_matches_trimmed_query_witness:
  "sampleQuery \<noteq> [] \<and> paperC \<in> set (filteredPapers [paperA, paperC, paperB] sampleQuery)
   \<and> sublist (toLowerCase (''Nghi'' @ [CHR 0xEA] @ ''n'')) (toLowerCase (Title paperC))
   \<and> isTrimOf (''Nghi'' @ [CHR 0xEA] @ ''n'') sampleQuery
   \<and> containsIgnoringCase (Title paperC) (''Nghi'' @ [CHR 0xEA] @ ''n'')"
proof -
  have h: "sampleQuery \<noteq> []"
    by (simp add: sampleQuery_def)
  have m: "paperC \<in> set (filteredPapers [paperA, paperC, paperB] sampleQuery)"
    by code_simp
  have t: "trim sampleQuery = ''Nghi'' @ [CHR 0xEA] @ ''n''"
    by code_simp
  have s: "sublist (toLowerCase (''Nghi'' @ [CHR 0xEA] @ ''n'')) (toLowerCase (Title paperC))"
    unfolding includes_str_sublist [symmetric] by code_simp
  have l: "trim (toLowerCase sampleQuery) = toLowerCase (''Nghi'' @ [CHR 0xEA] @ ''n'')"
    by code_simp
  note th = filteredPapers_matches_trimmed_query [OF h m, unfolded t l]
  show ?thesis
    using h m s th by blast
qed

section \<open>Properties of the pagination engine\<close>

text \<open>With a start index inside the non-negative range, \<open>slice\<close> is \<open>take\<close> after \<open>drop\<close>.\<close>

lemma slice_nonneg:
  "0 \<le> a \<Longrightarrow> 0 \<le> b \<Longrightarrow> slice xs a (a + b) = take (nat b) (drop (nat a) xs)"
  by (cases "a \<le> int (length xs)") (auto simp: slice_def Let_def min_def)

lemma slice_length_le: "0 \<le> b \<Longrightarrow> length (slice xs a (a + b)) \<le> nat b"
  by (auto simp: slice_def Let_def min_def max_def)

lemma paginatedPapersFor_take_drop:
  "0 < pageSize \<Longrightarrow> 1 \<le> p \<Longrightarrow>
   paginatedPapersFor pageSize xs p = take (nat pageSize) (drop (nat ((p - 1) * pageSize)) xs)"
  by (simp add: paginatedPapersFor_def Let_def slice_nonneg)

lemma concat_chunks:
  "concat (map (\<lambda>i. take n (drop (i * n) xs)) [0..<k]) = take (k * n) xs"
proof (induction k)
  case 0
  show ?case by simp
next
  case (Suc k)
  have "take (k * n + n) xs = take (k * n) xs @ take n (drop (k * n) xs)"
    by (rule take_add)
  moreover have "Suc k * n = k * n + n"
    by simp
  ultimately show ?case
    using Suc.IH by (simp del: mult_Suc)
qed

lemma map_upto_nat: "map f [1..int k] = map (\<lambda>i. f (int i + 1)) [0..<k]"
  by (induction k) (simp_all add: upto_rec2 add.commute)

lemma totalPagesFor_bounds:
  assumes "0 < pageSize"
  shows "(totalPagesFor pageSize xs - 1) * pageSize < int (length xs)"
    and "int (length xs) \<le> totalPagesFor pageSize xs * pageSize"
proof -
  define t where "t = totalPagesFor pageSize xs"
  define r where "r = real (length xs) / real_of_int pageSize"
  have t: "t = \<lceil>r\<rceil>"
    by (simp add: t_def r_def totalPagesFor_def Math_ceil_def)
  have pos: "0 < real_of_int pageSize"
    using assms by simp
  have "real_of_int t - 1 < r" and "r \<le> real_of_int t"
    using ceiling_correct [of r] by (simp_all add: t)
  then have "(real_of_int t - 1) * real_of_int pageSize < real (length xs)"
    and "real (length xs) \<le> real_of_int t * real_of_int pageSize"
    using pos by (simp_all add: r_def pos_less_divide_eq pos_divide_le_eq)
  then have "real_of_int ((t - 1) * pageSize) < real_of_int (int (length xs))"
    and "real_of_int (int (length xs)) \<le> real_of_int (t * pageSize)"
    by simp_all
  then show "(totalPagesFor pageSize xs - 1) * pageSize < int (length xs)"
    and "int (length xs) \<le> totalPagesFor pageSize xs * pageSize"
    unfolding t_def of_int_less_iff of_int_le_iff by simp_all
qed

lemma totalPagesFor_nonneg:
  assumes "0 < pageSize"
  shows "0 \<le> totalPagesFor pageSize xs"
proof -
  have "0 \<le> real (length xs) / real_of_int pageSize"
    using assms by simp
  then have "- 1 < real (length xs) / real_of_int pageSize"
    by linarith
  then show ?thesis
    by (simp add: totalPagesFor_def Math_ceil_def)
qed

lemma totalPagesFor_covers:
  assumes "0 < pageSize"
  shows "length xs \<le> nat (totalPagesFor pageSize xs) * nat pageSize"
proof -
  have "int (length xs) \<le> totalPagesFor pageSize xs * pageSize"
    using assms by (rule totalPagesFor_bounds)
  also have "\<dots> = int (nat (totalPagesFor pageSize xs) * nat pageSize)"
    using assms totalPagesFor_nonneg [OF assms, of xs] by simp
  finally show ?thesis
    by linarith
qed

lemma pages_concat:
  assumes "0 < pageSize"
  shows "concat (map (paginatedPapersFor pageSize xs) [1..int k]) = take (k * nat pageSize) xs"
proof -
  have "map (paginatedPapersFor pageSize xs) [1..int k] =
          map (\<lambda>i. paginatedPapersFor pageSize xs (int i + 1)) [0..<k]"
    by (rule map_upto_nat)
  also have "\<dots> = map (\<lambda>i. take (nat pageSize) (drop (i * nat pageSize) xs)) [0..<k]"
    using assms by (simp add: paginatedPapersFor_take_drop nat_mult_distrib)
  finally show ?thesis
    by (simp add: concat_chunks)
qed

text \<open>
  C2. At the fixed page size of 20, the page slices of pages 1 up to \<open>totalPages\<close>,
  concatenated in this order, are the input list itself: every element is on exactly
  one page, with no gap and no overlap.
\<close>

theorem pages_partition:
  "concat (map (paginatedPapers records) [1..totalPages records]) = records"
proof -
  have pos: "0 < ITEMS_PER_PAGE"
    by (simp add: ITEMS_PER_PAGE_def)
  define k where "k = nat (totalPages records)"
  have t: "totalPages records = int k"
    using totalPagesFor_nonneg [OF pos, of records] by (simp add: k_def totalPages_def)
  have cover: "length records \<le> k * nat ITEMS_PER_PAGE"
    using totalPagesFor_covers [OF pos, of records] by (simp add: k_def totalPages_def)
  have "paginatedPapers records = paginatedPapersFor ITEMS_PER_PAGE records"
    by (rule ext) (simp add: paginatedPapers_def)
  then have "concat (map (paginatedPapers records) [1..totalPages records]) =
          take (k * nat ITEMS_PER_PAGE) records"
    using pages_concat [OF pos, of records k] by (simp add: t)
  then show ?thesis
    using cover by simp
qed

text \<open>
  C3. For a positive page size, the total page count is the ceiling of the number of
  records divided by the page size, that is the one integer \<open>t\<close> with
  \<open>(t - 1) * pageSize < length records \<le> t * pageSize\<close>; it is 0 for the empty list.
\<close>

theorem totalPages_is_ceiling:
  assumes "0 < pageSize"
  shows "totalPagesFor pageSize (records :: 'a list) =
           \<lceil>real (length records) / real_of_int pageSize\<rceil>
       \<and> (totalPagesFor pageSize records - 1) * pageSize < int (length records)
       \<and> int (length records) \<le> totalPagesFor pageSize records * pageSize
       \<and> totalPagesFor pageSize ([] :: 'a list) = 0"
  using totalPagesFor_bounds [OF assms, of records]
  by (simp add: totalPagesFor_def Math_ceil_def)

theorem totalPages_is_ceiling_witness:
  "(0::int) < 20
   \<and> totalPagesFor 20 (replicate 45 paperA) = 3
   \<and> (3 - 1) * 20 < int (length (replicate 45 paperA))
   \<and> int (length (replicate 45 paperA)) \<le> 3 * 20
   \<and> totalPagesFor 20 ([] :: Paper list) = 0"
proof -
  have h: "(0::int) < 20"
    by simp
  have "totalPagesFor 20 (replicate 45 paperA) = 3"
    and "totalPagesFor 20 ([] :: Paper list) = 0"
    using totalPages_is_ceiling [OF h, of "replicate 45 paperA"] by simp_all
  then show ?thesis
    by simp
qed

text \<open>
  C5. For a positive page size, a page number above the total page count gives the
  empty slice. \<open>paginatedPapersFor\<close> is a total function with no error result, as
  \<open>slice\<close> cannot throw.
\<close>

theorem page_beyond_total_is_empty:
  assumes "0 < pageSize" and "totalPagesFor pageSize records < pageNumber"
  shows "paginatedPapersFor pageSize records pageNumber = []"
proof -
  have "0 \<le> totalPagesFor pageSize records"
    using assms(1) by (rule totalPagesFor_nonneg)
  then have p: "1 \<le> pageNumber"
    using assms(2) by simp
  have "totalPagesFor pageSize records * pageSize \<le> (pageNumber - 1) * pageSize"
    using assms by (intro mult_right_mono) simp_all
  then have "int (length records) \<le> (pageNumber - 1) * pageSize"
    using totalPagesFor_bounds(2) [OF assms(1), of records] by linarith
  then have "length records \<le> nat ((pageNumber - 1) * pageSize)"
    by linarith
  then show ?thesis
    using assms(1) p by (simp add: paginatedPapersFor_take_drop)
qed

theorem page_beyond_total_is_empty_witness:
  "(0::int) < 20 \<and> totalPagesFor 20 (replicate 45 paperA) < 4
   \<and> paginatedPapersFor 20 (replicate 45 paperA) 4 = []"
proof -
  have t: "totalPagesFor 20 (replicate 45 paperA) < 4"
    by (simp add: totalPagesFor_def Math_ceil_def)
  show ?thesis
    using t page_beyond_total_is_empty [OF _ t] by simp
qed

text \<open>
  C10. Whatever the filtered list and the (integer) page number, also zero or negative,
  the page slice has at most 20 = \<open>ITEMS_PER_PAGE\<close> records.
\<close>

theorem page_size_bound:
  "length (paginatedPapers filtered pageNumber) \<le> 20
   \<and> int (length (paginatedPapers filtered pageNumber)) \<le> ITEMS_PER_PAGE"
  using slice_length_le [of 20 filtered "(pageNumber - 1) * 20"]
  by (simp add: paginatedPapers_def paginatedPapersFor_def ITEMS_PER_PAGE_def Let_def)

section \<open>Properties of the load\<close>

text \<open>The configured URL passes the guard, so the guard is a real case distinction.\<close>

lemma configured_url_passes_guard:
  "GOOGLE_SHEET_CSV_URL \<noteq> [] \<and> \<not> includes_str GOOGLE_SHEET_CSV_URL ''YOUR_URL_HERE''"
  by code_simp

lemma loadData_fetches_configured_url: "snd (loadData fetch s) = [GOOGLE_SHEET_CSV_URL]"
  using configured_url_passes_guard
  by (simp add: loadData_def loadDataFrom_def tryBlock_def Let_def split: prod.splits)

text \<open>
  C8. When the configured URL is empty or contains the placeholder marker
  \<open>YOUR_URL_HERE\<close>, the load makes no network access: the list of URLs passed to
  \<open>fetchAndParseSheetData\<close> is empty, and the result of the load is the same whatever
  the fetch would have returned. The load ends with the configuration message in
  \<open>error\<close>, the records untouched and \<open>isLoading\<close> false.
\<close>

theorem placeholder_url_never_fetched:
  assumes "url = [] \<or> includes_str url ''YOUR_URL_HERE''"
  shows "snd (loadDataFrom fetch url s) = []
       \<and> loadDataFrom fetch url s = loadDataFrom fetch' url s
       \<and> error (fst (loadDataFrom fetch url s)) =
           Some ''Please replace the placeholder Google Sheet URL in App.tsx.''
       \<and> papers (fst (loadDataFrom fetch url s)) = papers s
       \<and> \<not> isLoading (fst (loadDataFrom fetch url s))"
  using assms by (auto simp add: loadDataFrom_def tryBlock_def Let_def)

theorem placeholder_url_never_fetched_witness:
  "(''YOUR_URL_HERE'' = [] \<or> includes_str ''YOUR_URL_HERE'' ''YOUR_URL_HERE'')
   \<and> snd (loadDataFrom (\<lambda>url. Inr [paperA]) ''YOUR_URL_HERE'' initialState) = []
   \<and> error (fst (loadDataFrom (\<lambda>url. Inr [paperA]) ''YOUR_URL_HERE'' initialState)) =
        Some ''Please replace the placeholder Google Sheet URL in App.tsx.''
   \<and> papers (fst (loadDataFrom (\<lambda>url. Inr [paperA]) ''YOUR_URL_HERE'' initialState)) = []"
proof -
  have h: "''YOUR_URL_HERE'' = [] \<or> includes_str ''YOUR_URL_HERE'' ''YOUR_URL_HERE''"
    by simp
  show ?thesis
    using h placeholder_url_never_fetched [OF h, of "\<lambda>url. Inr [paperA]" initialState]
    by (simp add: initialState_def)
qed

text \<open>
  C9. When the \<open>try\<close> body of the load throws a value \<open>e\<close>, be it the configuration
  error of the guard or a rejection of \<open>fetchAndParseSheetData\<close> (a failed transfer or
  a failed parse), \<open>setPapers\<close> is not reached: the records are those of the state
  before, which are none for the load that runs from the initial state, the message of
  \<open>e\<close> is stored in \<open>error\<close>, and \<open>isLoading\<close> is false.
\<close>

theorem failed_load_keeps_records_empty:
  assumes "fst (tryBlock fetch url) = Inl e"
  shows "papers (fst (loadDataFrom fetch url s)) = papers s
       \<and> papers (fst (loadDataFrom fetch url initialState)) = []
       \<and> error (fst (loadDataFrom fetch url s)) = Some (catchMessage e)
       \<and> \<not> isLoading (fst (loadDataFrom fetch url s))"
  using assms
  by (auto simp add: loadDataFrom_def initialState_def Let_def split: prod.splits)

theorem failed_load_keeps_records_empty_witness:
  "fst (tryBlock (\<lambda>url. Inl (Error ''Failed to fetch'')) ''https://example.org/pub?output=csv'')
     = Inl (Error ''Failed to fetch'')
   \<and> papers (fst (loadDataFrom (\<lambda>url. Inl (Error ''Failed to fetch''))
         ''https://example.org/pub?output=csv'' initialState)) = []
   \<and> error (fst (loadDataFrom (\<lambda>url. Inl (Error ''Failed to fetch''))
         ''https://example.org/pub?output=csv'' initialState)) = Some ''Failed to fetch''"
proof -
  have h: "fst (tryBlock (\<lambda>url. Inl (Error ''Failed to fetch''))
             ''https://example.org/pub?output=csv'') = Inl (Error ''Failed to fetch'')"
    by (simp add: tryBlock_def)
  show ?thesis
    using h failed_load_keeps_records_empty [OF h, of initialState]
    by (simp add: initialState_def)
qed

section \<open>Properties of the event handling\<close>

text \<open>
  C7. The page number is not reset before the next pagination is computed. From
  \<open>stateOnPageTwo\<close> the event that changes the query to \<open>b\<close> has two render passes.
  The first has the new query and still page 2: its filtered list is the one matching
  record, and its page slice is computed for page 2 and is empty. The page number is 1
  in the second pass only.
\<close>

theorem query_change_first_pass_stale_page:
  "searchQuery stateOnPageTwo \<noteq> ''b'' \<and>
   renderPasses (OnChange ''b'') stateOnPageTwo =
     [stateOnPageTwo\<lparr>searchQuery := ''b''\<rparr>,
      stateOnPageTwo\<lparr>searchQuery := ''b'', currentPage := 1\<rparr>] \<and>
   currentPage (stateOnPageTwo\<lparr>searchQuery := ''b''\<rparr>) = 2 \<and>
   viewFilteredPapers (render (stateOnPageTwo\<lparr>searchQuery := ''b''\<rparr>)) = [paperB] \<and>
   viewPaginatedPapers (render (stateOnPageTwo\<lparr>searchQuery := ''b''\<rparr>)) = []"
  by code_simp

text \<open>
  C7, amended. An event that changes the query string is rendered first in the state
  the handler leaves, with the new query and the page number of before; the effect that
  runs after this pass sets the page number to 1. The event ends in a state with the new
  query and page number 1, and this is the state of its last render pass, whose page
  slice is page 1 of the newly filtered records.
\<close>

theorem query_change_resets_page:
  assumes "v \<noteq> searchQuery s"
  shows "hd (renderPasses (OnChange v) s) = setSearchQuery v s
       \<and> currentPage (setSearchQuery v s) = currentPage s
       \<and> last (renderPasses (OnChange v) s) = dispatch (OnChange v) s
       \<and> searchQuery (dispatch (OnChange v) s) = v
       \<and> currentPage (dispatch (OnChange v) s) = 1
       \<and> viewPaginatedPapers (render (dispatch (OnChange v) s)) =
           paginatedPapers (filteredPapers (papers s) v) 1"
proof -
  have d: "dispatch (OnChange v) s = setCurrentPage 1 (setSearchQuery v s)"
    using assms by (simp add: dispatch_def resetPageEffect_def setSearchQuery_def)
  have r: "renderPasses (OnChange v) s =
             (if dispatch (OnChange v) s = setSearchQuery v s then [setSearchQuery v s]
              else [setSearchQuery v s, dispatch (OnChange v) s])"
    by (simp add: renderPasses_def dispatch_def Let_def)
  have "hd (renderPasses (OnChange v) s) = setSearchQuery v s"
    and "last (renderPasses (OnChange v) s) = dispatch (OnChange v) s"
    by (simp_all add: r)
  moreover have "currentPage (setSearchQuery v s) = currentPage s"
    by (simp add: setSearchQuery_def)
  moreover have "searchQuery (dispatch (OnChange v) s) = v"
    and "currentPage (dispatch (OnChange v) s) = 1"
    and "papers (dispatch (OnChange v) s) = papers s"
    by (simp_all add: d setCurrentPage_def setSearchQuery_def)
  ultimately show ?thesis
    by (simp add: render_def Let_def)
qed

theorem query_change_resets_page_witness:
  "''b'' \<noteq> searchQuery stateOnPageTwo
   \<and> currentPage (hd (renderPasses (OnChange ''b'') stateOnPageTwo)) = 2
   \<and> currentPage (last (renderPasses (OnChange ''b'') stateOnPageTwo)) = 1
   \<and> viewPaginatedPapers (render (dispatch (OnChange ''b'') stateOnPageTwo)) = [paperB]"
proof -
  have h: "''b'' \<noteq> searchQuery stateOnPageTwo"
    by (simp add: stateOnPageTwo_def)
  have two: "currentPage stateOnPageTwo = 2"
    "papers stateOnPageTwo = replicate 20 paperA @ [paperB]"
    by (simp_all add: stateOnPageTwo_def)
  have page: "paginatedPapers (filteredPapers (replicate 20 paperA @ [paperB]) ''b'') 1 = [paperB]"
    by code_simp
  show ?thesis
    using h query_change_resets_page [OF h] two
    by (simp add: page)
qed

end
